theory Spec2Isabelle
  imports Main
begin

section \<open>The authentication transport layer of \<open>src/lib/axios.ts\<close>\<close>

text \<open>
  The module keeps three module-level variables (\<open>accessToken\<close>, \<open>isRefreshing\<close>,
  \<open>failedQueue\<close>) and installs a request interceptor and a response interceptor on the
  axios instance \<open>apiClient\<close>. JavaScript is single-threaded: every handler runs to its next
  suspension point without interleaving, and promise reactions run in FIFO order before the
  next network event is handled. The model makes this explicit:
  \<^item> the module variables are fields of the record \<open>sys\<close>;
  \<^item> a promise is identified with its consumer, a \<open>kont\<close>: either an external caller, or the
    suspended \<open>async\<close> response handler that waits at \<open>await apiClient.post(...)\<close>;
  \<^item> requests handed to the network and not yet answered are the list \<open>inflight\<close>;
  \<^item> settled promises whose reactions have not run yet are the list \<open>reactions\<close>;
  \<^item> what the outside world observes is appended to \<open>trace\<close>.

  Three facts about axios are used. The interceptors of an instance run on every request
  made through that instance, whether by \<open>apiClient(config)\<close> or by \<open>apiClient.post(url)\<close>.
  A config handed to \<open>apiClient\<close> again keeps its own extra properties, so \<open>_retry\<close>
  travels with a replayed request. An error that carries a response carries the config of
  its request.
\<close>

subsection \<open>Data\<close>

text \<open>
  A request config (\<open>InternalAxiosRequestConfig & { _retry?: boolean }\<close>). Only the
  \<open>Authorization\<close> header and \<open>_retry\<close> are read or written by the module; \<open>undefined\<close>
  for \<open>_retry\<close> is \<open>False\<close>, an absent header is \<open>None\<close>.
\<close>

record config =
  url :: string
  http_method :: string
  payload :: string
  authorization :: "string option"
  retry :: bool

text \<open>
  An \<open>AxiosError\<close>: \<open>error.config\<close> and \<open>error.response?.status\<close>, which is \<open>None\<close>
  when the error carries no response at all (a transport error).
\<close>

record axios_error =
  config :: config
  response_status :: "nat option"

text \<open>A successful response; \<open>access\<close> is \<open>data.access\<close>, the field the refresh handler reads.\<close>

record response =
  access :: string

text \<open>
  The consumer of a promise. \<open>Caller i\<close> is the code outside the module that made call
  number \<open>i\<close>. \<open>Await originalRequest k\<close> is an invocation of the rejection handler,
  suspended at line 59 with \<open>originalRequest\<close> in its frame, whose own promise is
  consumed by \<open>k\<close>.
\<close>

datatype kont =
    Caller nat
  | Await config kont

text \<open>
  A reaction that is scheduled and has not run: the consumer \<open>k\<close> learns that its promise was
  rejected or resolved, or the \<open>.then\<close> callback of a queue entry (lines 49 to 52) runs with
  the token the entry was resolved with.
\<close>

datatype reaction =
    Reject kont axios_error
  | Resolve kont response
  | Retry config kont "string option"

text \<open>
  What is observed outside the module: a caller sees its call fail or succeed, and
  \<open>window.dispatchEvent(new CustomEvent("auth:logout"))\<close>.
\<close>

datatype effect =
    Rejected nat axios_error
  | Resolved nat response
  | Logout

record sys =
  accessToken :: "string option"
  isRefreshing :: bool
  failedQueue :: "(config \<times> kont) list"
  inflight :: "(config \<times> kont) list"
  reactions :: "reaction list"
  trace :: "effect list"
  next_id :: nat

subsection \<open>Credential cell and request interceptor\<close>

text \<open>\<open>if (accessToken)\<close>: \<open>null\<close> and the empty string are falsy.\<close>

fun truthy :: "string option \<Rightarrow> bool" where
  "truthy None = False"
| "truthy (Some t) = (t \<noteq> [])"

text \<open>A template literal \<open>`Bearer ${token}`\<close>; \<open>null\<close> prints as \<open>null\<close>.\<close>

fun bearer :: "string option \<Rightarrow> string" where
  "bearer None = ''Bearer null''"
| "bearer (Some t) = ''Bearer '' @ t"

definition setAccessToken :: "string option \<Rightarrow> sys \<Rightarrow> sys" where
  "setAccessToken token s = s\<lparr>accessToken := token\<rparr>"

definition requestInterceptor :: "string option \<Rightarrow> config \<Rightarrow> config" where
  "requestInterceptor tok cfg =
     (if truthy tok then cfg\<lparr>authorization := Some (bearer tok)\<rparr> else cfg)"

subsection \<open>Promises and the network\<close>

text \<open>
  \<open>apiClient(cfg)\<close>, with \<open>k\<close> the consumer of the promise it returns: the request
  interceptor runs on the config, and the request is handed to the network.
\<close>

definition apiClient :: "config \<Rightarrow> kont \<Rightarrow> sys \<Rightarrow> sys" where
  "apiClient cfg k s =
     s\<lparr>inflight := inflight s @ [(requestInterceptor (accessToken s) cfg, k)]\<rparr>"

text \<open>Rejecting the promise consumed by \<open>k\<close>: the consumer's reaction is scheduled.\<close>

definition reject :: "kont \<Rightarrow> axios_error \<Rightarrow> sys \<Rightarrow> sys" where
  "reject k e s = s\<lparr>reactions := reactions s @ [Reject k e]\<rparr>"

definition dispatchLogout :: "sys \<Rightarrow> sys" where
  "dispatchLogout s = s\<lparr>trace := trace s @ [Logout]\<rparr>"

text \<open>The config of \<open>apiClient.post("/accounts/token/refresh/")\<close>.\<close>

definition refreshRequest :: config where
  "refreshRequest =
     \<lparr>url = ''/accounts/token/refresh/'', http_method = ''post'', payload = [],
      authorization = None, retry = False\<rparr>"

subsection \<open>The waiter queue\<close>

text \<open>
  An entry of \<open>failedQueue\<close> is the pair \<open>{resolve, reject}\<close> of a promise created in the
  join path. Its \<open>.then\<close> callback closes over \<open>originalRequest\<close>, and the promise the
  callback feeds is consumed by \<open>k\<close>; the entry is therefore the pair \<open>(originalRequest, k)\<close>.
  \<open>p.reject(error)\<close> schedules the rejection of \<open>k\<close>; \<open>p.resolve(token)\<close> schedules the
  \<open>.then\<close> callback, the reaction \<open>Retry\<close>. An error object is always truthy.
\<close>

fun settle :: "axios_error option \<Rightarrow> string option \<Rightarrow> config \<times> kont \<Rightarrow> reaction" where
  "settle (Some e) token (cfg, k) = Reject k e"
| "settle None token (cfg, k) = Retry cfg k token"

definition processQueue :: "axios_error option \<Rightarrow> string option \<Rightarrow> sys \<Rightarrow> sys" where
  "processQueue error token s =
     s\<lparr>reactions := reactions s @ map (settle error token) (failedQueue s), failedQueue := []\<rparr>"

subsection \<open>The response interceptor\<close>

text \<open>
  The rejection handler, up to its first suspension point. \<open>k\<close> consumes the promise the
  handler returns. In the trigger path the handler suspends at \<open>await apiClient.post(...)\<close>:
  the refresh request is issued through \<open>apiClient\<close> itself, and the promise of that call is
  consumed by the suspended handler \<open>Await originalRequest k\<close>.
\<close>

definition onRejected :: "axios_error \<Rightarrow> kont \<Rightarrow> sys \<Rightarrow> sys" where
  "onRejected error k s =
     (let originalRequest = config error in
      if response_status error = Some 401 \<and> \<not> retry originalRequest then
        if isRefreshing s then
          s\<lparr>failedQueue := failedQueue s @ [(originalRequest, k)]\<rparr>
        else
          let originalRequest = originalRequest\<lparr>retry := True\<rparr>;
              s = s\<lparr>isRefreshing := True\<rparr>
          in apiClient refreshRequest (Await originalRequest k) s
      else reject k error s)"

text \<open>The \<open>try\<close> block after the \<open>await\<close> returned \<open>data.access\<close>, then \<open>finally\<close>.\<close>

definition refreshFulfilled :: "config \<Rightarrow> kont \<Rightarrow> string \<Rightarrow> sys \<Rightarrow> sys" where
  "refreshFulfilled originalRequest k data_access s =
     (let s = setAccessToken (Some data_access) s;
          s = processQueue None (Some data_access) s;
          originalRequest = originalRequest\<lparr>authorization := Some (bearer (Some data_access))\<rparr>;
          s = apiClient originalRequest k s
      in s\<lparr>isRefreshing := False\<rparr>)"

text \<open>The \<open>catch\<close> block after the \<open>await\<close> threw \<open>refreshError\<close>, then \<open>finally\<close>.\<close>

definition refreshRejected :: "kont \<Rightarrow> axios_error \<Rightarrow> sys \<Rightarrow> sys" where
  "refreshRejected k refreshError s =
     (let s = processQueue (Some refreshError) None s;
          s = setAccessToken None s;
          s = dispatchLogout s;
          s = reject k refreshError s
      in s\<lparr>isRefreshing := False\<rparr>)"

subsection \<open>Promise reactions\<close>

text \<open>
  One reaction. A settled promise consumed by a caller is observed by that caller; one
  consumed by a suspended handler resumes it in its \<open>try\<close> or \<open>catch\<close> block. \<open>Retry\<close> is the
  \<open>.then\<close> callback of the join path.
\<close>

fun run_reaction :: "reaction \<Rightarrow> sys \<Rightarrow> sys" where
  "run_reaction (Reject (Caller i) e) s = s\<lparr>trace := trace s @ [Rejected i e]\<rparr>"
| "run_reaction (Reject (Await originalRequest k) e) s = refreshRejected k e s"
| "run_reaction (Resolve (Caller i) r) s = s\<lparr>trace := trace s @ [Resolved i r]\<rparr>"
| "run_reaction (Resolve (Await originalRequest k) r) s =
     refreshFulfilled originalRequest k (access r) s"
| "run_reaction (Retry originalRequest k token) s =
     apiClient (originalRequest\<lparr>authorization := Some (bearer token)\<rparr>) k s"

fun kweight :: "kont \<Rightarrow> nat" where
  "kweight (Caller i) = 1"
| "kweight (Await c k) = Suc (kweight k)"

fun rweight :: "reaction \<Rightarrow> nat" where
  "rweight (Reject k e) = kweight k"
| "rweight (Resolve k r) = kweight k"
| "rweight (Retry c k t) = kweight k"

definition sys_weight :: "sys \<Rightarrow> nat" where
  "sys_weight s =
     sum_list (map rweight (reactions s)) + sum_list (map (\<lambda>p. kweight (snd p)) (failedQueue s))"

text \<open>All scheduled reactions run, in FIFO order, before the next event is handled.\<close>

function drain :: "sys \<Rightarrow> sys" where
  "drain s = (case reactions s of [] \<Rightarrow> s | t # ts \<Rightarrow> drain (run_reaction t (s\<lparr>reactions := ts\<rparr>)))"
  by pat_completeness auto
termination
proof (relation "measure sys_weight")
  show "wf (measure sys_weight)" by simp
next
  fix s :: sys and t ts
  assume ts: "reactions s = t # ts"
  have q: "sum_list (map (rweight \<circ> settle error token) q)
             = sum_list (map (\<lambda>p. kweight (snd p)) q)" for error token q
  proof (induction q)
    case Nil
    show ?case by simp
  next
    case (Cons p q)
    have "rweight (settle error token p) = kweight (snd p)"
      by (cases error; cases p) simp_all
    with Cons show ?case by simp
  qed
  have less: "sys_weight (run_reaction t u) < rweight t + sys_weight u" for u
  proof (cases t)
    case (Reject k e)
    then show ?thesis
      by (cases k)
         (simp_all add: sys_weight_def refreshRejected_def processQueue_def setAccessToken_def
            dispatchLogout_def reject_def q Let_def)
  next
    case (Resolve k r)
    then show ?thesis
      by (cases k)
         (simp_all add: sys_weight_def refreshFulfilled_def processQueue_def setAccessToken_def
            apiClient_def q Let_def)
  next
    case (Retry c k tok)
    then show ?thesis
      by (cases k) (simp_all add: sys_weight_def apiClient_def)
  qed
  have "sys_weight (run_reaction t (s\<lparr>reactions := ts\<rparr>)) < rweight t + sys_weight (s\<lparr>reactions := ts\<rparr>)"
    by (rule less)
  also have "rweight t + sys_weight (s\<lparr>reactions := ts\<rparr>) = sys_weight s"
    by (simp add: sys_weight_def ts)
  finally show "(run_reaction t (s\<lparr>reactions := ts\<rparr>), s) \<in> measure sys_weight" by simp
qed

declare drain.simps [simp del]

subsection \<open>Events\<close>

text \<open>
  The environment: a caller dispatches a request through \<open>apiClient\<close>; the network answers
  the \<open>n\<close>-th request in flight, with a 2xx response or with a failure (a status, or none for
  a transport error); the login flow writes the credential cell.
\<close>

datatype reply = Ok response | Err "nat option"

datatype event = Call config | Respond nat reply | SetToken "string option"

text \<open>
  The response interceptor on the answer to a request: \<open>(response) => response\<close> on
  success, the rejection handler on failure, with \<open>error.config\<close> the config as sent.
\<close>

fun respond :: "config \<times> kont \<Rightarrow> reply \<Rightarrow> sys \<Rightarrow> sys" where
  "respond (cfg, k) (Ok r) s = s\<lparr>reactions := reactions s @ [Resolve k r]\<rparr>"
| "respond (cfg, k) (Err st) s = onRejected \<lparr>config = cfg, response_status = st\<rparr> k s"

fun step :: "sys \<Rightarrow> event \<Rightarrow> sys" where
  "step s (Call cfg) =
     drain (apiClient cfg (Caller (next_id s)) (s\<lparr>next_id := Suc (next_id s)\<rparr>))"
| "step s (Respond n rep) =
     (if n < length (inflight s)
      then drain (respond (inflight s ! n) rep
                    (s\<lparr>inflight := take n (inflight s) @ drop (Suc n) (inflight s)\<rparr>))
      else s)"
| "step s (SetToken token) = setAccessToken token s"

definition run :: "sys \<Rightarrow> event list \<Rightarrow> sys" where
  "run s es = foldl step s es"

text \<open>The module as loaded, with the credential cell holding \<open>token\<close>.\<close>

definition init :: "string option \<Rightarrow> sys" where
  "init token =
     \<lparr>accessToken = token, isRefreshing = False, failedQueue = [], inflight = [],
      reactions = [], trace = [], next_id = 0\<rparr>"

subsection \<open>Observations and scenarios\<close>

text \<open>\<open>settles i x\<close>: the effect \<open>x\<close> is the settlement of caller \<open>i\<close>'s promise.\<close>

fun settles :: "nat \<Rightarrow> effect \<Rightarrow> bool" where
  "settles i (Rejected j e) = (i = j)"
| "settles i (Resolved j r) = (i = j)"
| "settles i Logout = False"

fun other_caller :: "nat \<Rightarrow> kont \<Rightarrow> bool" where
  "other_caller i (Caller j) = (j \<noteq> i)"
| "other_caller i (Await c k) = False"

text \<open>
  A state in which caller \<open>i\<close> can no longer be reached: a refresh is marked as running, but
  no request in flight and no scheduled reaction leads to a suspended handler.
\<close>

definition parked :: "nat \<Rightarrow> sys \<Rightarrow> bool" where
  "parked i s \<longleftrightarrow>
     isRefreshing s \<and> reactions s = [] \<and> i < next_id s
     \<and> list_all (\<lambda>p. other_caller i (snd p)) (inflight s)
     \<and> Logout \<notin> set (trace s) \<and> \<not> list_ex (settles i) (trace s)"

definition get :: "string \<Rightarrow> config" where
  "get u = \<lparr>url = u, http_method = ''get'', payload = [], authorization = None, retry = False\<rparr>"

definition unauthorized :: reply where
  "unauthorized = Err (Some 401)"

definition granted :: "string \<Rightarrow> reply" where
  "granted t = Ok \<lparr>access = t\<rparr>"

text \<open>A batch of failures handled one after the other, before anything else happens.\<close>

definition onRejectedAll :: "(axios_error \<times> kont) list \<Rightarrow> sys \<Rightarrow> sys" where
  "onRejectedAll errs s = fold (\<lambda>(e, k). onRejected e k) errs s"

text \<open>
  The refresh calls that are pending: the entries, among the requests in flight and in the
  queue, whose promise is consumed by a suspended handler.
\<close>

fun is_caller :: "kont \<Rightarrow> bool" where
  "is_caller (Caller i) = True"
| "is_caller (Await c k) = False"

fun flat :: "kont \<Rightarrow> bool" where
  "flat (Caller i) = True"
| "flat (Await c k) = is_caller k"

fun caller_reaction :: "reaction \<Rightarrow> bool" where
  "caller_reaction (Reject k e) = is_caller k"
| "caller_reaction (Resolve k r) = is_caller k"
| "caller_reaction (Retry c k t) = False"

definition awaits :: "(config \<times> kont) list \<Rightarrow> nat" where
  "awaits xs = length (filter (\<lambda>p. \<not> is_caller (snd p)) xs)"

definition single_refresh :: "sys \<Rightarrow> bool" where
  "single_refresh s \<longleftrightarrow>
     reactions s = []
     \<and> list_all (\<lambda>p. flat (snd p)) (inflight s) \<and> list_all (\<lambda>p. flat (snd p)) (failedQueue s)
     \<and> awaits (inflight s) + awaits (failedQueue s) \<le> (if isRefreshing s then 1 else 0)"

section \<open>Properties\<close>

subsection \<open>Basic facts\<close>

lemma drain_Nil: "reactions s = [] \<Longrightarrow> drain s = s"
  by (subst drain.simps) simp

lemma drain_Cons: "reactions s = t # ts \<Longrightarrow> drain s = drain (run_reaction t (s\<lparr>reactions := ts\<rparr>))"
  by (subst drain.simps) simp

lemma reactions_same: "reactions s = ts \<Longrightarrow> s\<lparr>reactions := ts\<rparr> = s"
  by simp

lemma run_Nil [simp]: "run s [] = s"
  by (simp add: run_def)

lemma run_Cons [simp]: "run s (ev # es) = run (step s ev) es"
  by (simp add: run_def)

lemma run_append: "run s (es @ es') = run (run s es) es'"
  by (simp add: run_def)

lemma onRejected_pass:
  "response_status error \<noteq> Some 401 \<or> retry (config error) \<Longrightarrow>
   onRejected error k s = reject k error s"
  by (auto simp: onRejected_def Let_def)

lemma onRejected_join:
  "isRefreshing s \<Longrightarrow> response_status error = Some 401 \<Longrightarrow> \<not> retry (config error) \<Longrightarrow>
   onRejected error k s = s\<lparr>failedQueue := failedQueue s @ [(config error, k)]\<rparr>"
  by (simp add: onRejected_def Let_def)

lemma onRejected_trigger:
  "\<not> isRefreshing s \<Longrightarrow> response_status error = Some 401 \<Longrightarrow> \<not> retry (config error) \<Longrightarrow>
   onRejected error k s =
     s\<lparr>isRefreshing := True,
       inflight := inflight s @
         [(requestInterceptor (accessToken s) refreshRequest,
           Await ((config error)\<lparr>retry := True\<rparr>) k)]\<rparr>"
  by (simp add: onRejected_def Let_def apiClient_def)

lemma onRejected_joins:
  "isRefreshing s \<Longrightarrow>
   \<forall>(e, k) \<in> set errs. response_status e = Some 401 \<and> \<not> retry (config e) \<Longrightarrow>
   onRejectedAll errs s =
     s\<lparr>failedQueue := failedQueue s @ map (\<lambda>(e, k). (config e, k)) errs\<rparr>"
proof (induction errs arbitrary: s)
  case Nil
  show ?case by (simp add: onRejectedAll_def)
next
  case (Cons p errs)
  obtain e k where p: "p = (e, k)" by (cases p)
  define s1 where "s1 = s\<lparr>failedQueue := failedQueue s @ [(config e, k)]\<rparr>"
  from Cons.prems p have one: "onRejected e k s = s1"
    by (simp add: onRejected_join s1_def)
  have "onRejectedAll errs s1 =
        s1\<lparr>failedQueue := failedQueue s1 @ map (\<lambda>(e, k). (config e, k)) errs\<rparr>"
    using Cons.prems by (intro Cons.IH) (simp_all add: s1_def)
  then show ?case by (simp add: p one onRejectedAll_def s1_def)
qed

lemmas eval_simps = init_def get_def unauthorized_def granted_def apiClient_def
  requestInterceptor_def onRejected_def refreshRequest_def reject_def processQueue_def
  setAccessToken_def dispatchLogout_def refreshFulfilled_def refreshRejected_def
  drain_Cons drain_Nil Let_def

subsection \<open>The request interceptor\<close>

text \<open>
  Claim C10. The request interceptor overwrites any Authorization header the config
  already has with \<open>Bearer\<close> and the cell's token when the credential cell holds a token, and returns
  the config unchanged when the cell is empty (\<open>null\<close>, or the empty string, which
  JavaScript also treats as false); in particular an Authorization header already on the
  config is then kept.
\<close>

theorem requestInterceptor_overwrites_or_keeps:
  assumes "t \<noteq> []"
  shows "requestInterceptor (Some t) cfg = cfg\<lparr>authorization := Some (''Bearer '' @ t)\<rparr>
       \<and> requestInterceptor None cfg = cfg
       \<and> requestInterceptor (Some []) cfg = cfg"
  using assms by (simp add: requestInterceptor_def)

theorem requestInterceptor_overwrites_or_keeps_witness:
  "''T1'' \<noteq> []
   \<and> requestInterceptor (Some ''T1'') ((get ''/rooms'')\<lparr>authorization := Some ''Bearer OLD''\<rparr>)
       = (get ''/rooms'')\<lparr>authorization := Some ''Bearer T1''\<rparr>
   \<and> authorization (requestInterceptor None ((get ''/rooms'')\<lparr>authorization := Some ''Bearer OLD''\<rparr>))
       = Some ''Bearer OLD''"
proof -
  have h: "''T1'' \<noteq> []" by simp
  show ?thesis
    using h requestInterceptor_overwrites_or_keeps
      [OF h, of "(get ''/rooms'')\<lparr>authorization := Some ''Bearer OLD''\<rparr>"]
    by simp
qed

subsection \<open>Failures that are passed through\<close>

text \<open>
  Claim C8. A response failure whose status is not 401, and a 401 on a request whose
  \<open>_retry\<close> flag is already set, is handed unmodified to the consumer of the request: the
  handler only rejects with the same error. No request is sent, and \<open>isRefreshing\<close>,
  \<open>failedQueue\<close> and the credential cell stay as they are. For an external caller the whole
  effect is that the caller observes this error.
\<close>

theorem other_failures_pass_through:
  assumes "response_status error \<noteq> Some 401 \<or> retry (config error)"
  shows "onRejected error k s = s\<lparr>reactions := reactions s @ [Reject k error]\<rparr>
       \<and> (reactions s = [] \<longrightarrow>
            drain (onRejected error (Caller i) s) = s\<lparr>trace := trace s @ [Rejected i error]\<rparr>)"
  using assms by (simp add: onRejected_pass reject_def drain_Cons drain_Nil)

theorem other_failures_pass_through_witness:
  "response_status \<lparr>config = get ''/menu'', response_status = Some 500\<rparr> = Some 500
   \<and> reactions (init (Some ''T1'')) = []
   \<and> drain (onRejected \<lparr>config = get ''/menu'', response_status = Some 500\<rparr> (Caller 0)
              (init (Some ''T1'')))
       = (init (Some ''T1''))
           \<lparr>trace := [Rejected 0 \<lparr>config = get ''/menu'', response_status = Some 500\<rparr>]\<rparr>"
proof -
  have h: "response_status \<lparr>config = get ''/menu'', response_status = Some 500\<rparr> \<noteq> Some 401
      \<or> retry (config \<lparr>config = get ''/menu'', response_status = Some 500\<rparr>)"
    by simp
  have t: "reactions (init (Some ''T1'')) = []"
    by (simp add: init_def)
  have e: "trace (init (Some ''T1'')) = []"
    by (simp add: init_def)
  have "reactions (init (Some ''T1'')) = [] \<longrightarrow>
          drain (onRejected \<lparr>config = get ''/menu'', response_status = Some 500\<rparr> (Caller 0)
                   (init (Some ''T1'')))
          = (init (Some ''T1''))
              \<lparr>trace := trace (init (Some ''T1'')) @
                 [Rejected 0 \<lparr>config = get ''/menu'', response_status = Some 500\<rparr>]\<rparr>"
    using other_failures_pass_through [OF h, of "Caller 0" "init (Some ''T1'')" 0]
    by (rule conjunct2)
  with h t e show ?thesis
    by simp
qed

text \<open>
  Claim C9. A failure that carries no response (\<open>error.response\<close> is absent, so
  \<open>error.response?.status\<close> is \<open>undefined\<close>) is never taken for an authentication failure:
  whatever the state, it is passed through, and it neither starts a refresh nor joins the
  queue.
\<close>

theorem no_response_is_not_auth_failure:
  assumes "response_status error = None"
  shows "onRejected error k s = s\<lparr>reactions := reactions s @ [Reject k error]\<rparr>
       \<and> failedQueue (onRejected error k s) = failedQueue s
       \<and> inflight (onRejected error k s) = inflight s
       \<and> isRefreshing (onRejected error k s) = isRefreshing s"
  using assms by (simp add: onRejected_pass reject_def)

theorem no_response_is_not_auth_failure_witness:
  "response_status \<lparr>config = get ''/menu'', response_status = None\<rparr> = None
   \<and> onRejected \<lparr>config = get ''/menu'', response_status = None\<rparr> (Caller 0) (init None)
       = (init None)\<lparr>reactions := [Reject (Caller 0) \<lparr>config = get ''/menu'', response_status = None\<rparr>]\<rparr>
   \<and> inflight (onRejected \<lparr>config = get ''/menu'', response_status = None\<rparr> (Caller 0) (init None))
       = []"
proof -
  have h: "response_status \<lparr>config = get ''/menu'', response_status = None\<rparr> = None"
    by simp
  have t: "reactions (init None) = []" "inflight (init None) = []"
    by (simp_all add: init_def)
  show ?thesis
    using h t no_response_is_not_auth_failure [OF h, of "Caller 0" "init None"]
    by simp
qed

subsection \<open>Single flight\<close>

text \<open>
  Claim C1. Starting with no refresh running, let two or more requests fail with 401,
  none of them retried before, and let their failures be handled before any refresh
  settles. Then exactly one request is sent, the refresh call, issued for the first of
  them; every other request finds \<open>isRefreshing\<close> set and is appended to \<open>failedQueue\<close>.
\<close>

theorem single_flight:
  assumes "\<not> isRefreshing s" and "2 \<le> length errs"
    and "\<forall>(e, k) \<in> set errs. response_status e = Some 401 \<and> \<not> retry (config e)"
  shows "inflight (onRejectedAll errs s) =
           inflight s @ [(requestInterceptor (accessToken s) refreshRequest,
                          Await ((config (fst (hd errs)))\<lparr>retry := True\<rparr>) (snd (hd errs)))]
       \<and> failedQueue (onRejectedAll errs s) =
           failedQueue s @ map (\<lambda>(e, k). (config e, k)) (tl errs)
       \<and> isRefreshing (onRejectedAll errs s)"
proof -
  from assms(2) obtain e k rest where errs: "errs = (e, k) # rest"
    by (cases errs) auto
  define s1 where
    "s1 = s\<lparr>isRefreshing := True,
            inflight := inflight s @
              [(requestInterceptor (accessToken s) refreshRequest,
                Await ((config e)\<lparr>retry := True\<rparr>) k)]\<rparr>"
  have first: "onRejected e k s = s1"
    using assms(1,3) errs by (simp add: onRejected_trigger s1_def)
  have "onRejectedAll rest s1 =
          s1\<lparr>failedQueue := failedQueue s1 @ map (\<lambda>(e, k). (config e, k)) rest\<rparr>"
    using assms(3) errs by (intro onRejected_joins) (simp_all add: s1_def)
  moreover have "onRejectedAll errs s = onRejectedAll rest s1"
    by (simp add: errs onRejectedAll_def first)
  ultimately show ?thesis by (simp add: errs s1_def)
qed

theorem single_flight_witness:
  "\<not> isRefreshing (init (Some ''T1''))
   \<and> 2 \<le> length [(\<lparr>config = get ''/a'', response_status = Some 401\<rparr>, Caller 0),
                  (\<lparr>config = get ''/b'', response_status = Some 401\<rparr>, Caller 1),
                  (\<lparr>config = get ''/c'', response_status = Some 401\<rparr>, Caller 2)]
   \<and> inflight (onRejectedAll
        [(\<lparr>config = get ''/a'', response_status = Some 401\<rparr>, Caller 0),
         (\<lparr>config = get ''/b'', response_status = Some 401\<rparr>, Caller 1),
         (\<lparr>config = get ''/c'', response_status = Some 401\<rparr>, Caller 2)]
        (init (Some ''T1'')))
       = [(requestInterceptor (Some ''T1'') refreshRequest,
           Await ((get ''/a'')\<lparr>retry := True\<rparr>) (Caller 0))]
   \<and> failedQueue (onRejectedAll
        [(\<lparr>config = get ''/a'', response_status = Some 401\<rparr>, Caller 0),
         (\<lparr>config = get ''/b'', response_status = Some 401\<rparr>, Caller 1),
         (\<lparr>config = get ''/c'', response_status = Some 401\<rparr>, Caller 2)]
        (init (Some ''T1'')))
       = [(get ''/b'', Caller 1), (get ''/c'', Caller 2)]"
proof -
  let ?errs = "[(\<lparr>config = get ''/a'', response_status = Some 401\<rparr>, Caller 0),
                (\<lparr>config = get ''/b'', response_status = Some 401\<rparr>, Caller 1),
                (\<lparr>config = get ''/c'', response_status = Some 401\<rparr>, Caller 2)]"
  have h1: "\<not> isRefreshing (init (Some ''T1''))"
    by (simp add: init_def)
  have h2: "2 \<le> length ?errs"
    by simp
  have h3: "\<forall>(e, k) \<in> set ?errs. response_status e = Some 401 \<and> \<not> retry (config e)"
    by (simp add: get_def)
  have i: "inflight (init (Some ''T1'')) = []" "failedQueue (init (Some ''T1'')) = []"
    "accessToken (init (Some ''T1'')) = Some ''T1''"
    by (simp_all add: init_def)
  show ?thesis
    using h1 h2 i single_flight [OF h1 h2 h3]
    by simp
qed

subsection \<open>Refresh success\<close>

lemma drain_retries:
  "reactions s = map (settle None (Some t)) q \<Longrightarrow> accessToken s = Some t \<Longrightarrow>
   drain s = s\<lparr>reactions := [],
               inflight := inflight s @
                 map (\<lambda>(c, k). (c\<lparr>authorization := Some (''Bearer '' @ t)\<rparr>, k)) q\<rparr>"
proof (induction q arbitrary: s)
  case Nil
  then show ?case by (simp add: drain_Nil)
next
  case (Cons p q)
  obtain c k where p: "p = (c, k)" by (cases p)
  define s1 where
    "s1 = s\<lparr>reactions := map (settle None (Some t)) q,
            inflight := inflight s @ [(c\<lparr>authorization := Some (''Bearer '' @ t)\<rparr>, k)]\<rparr>"
  have "drain s = drain (run_reaction (Retry c k (Some t)) (s\<lparr>reactions := map (settle None (Some t)) q\<rparr>))"
    using Cons.prems(1) p by (simp add: drain_Cons)
  also have "run_reaction (Retry c k (Some t)) (s\<lparr>reactions := map (settle None (Some t)) q\<rparr>) = s1"
    using Cons.prems(2) by (simp add: s1_def apiClient_def requestInterceptor_def)
  also have "drain s1 = s1\<lparr>reactions := [],
               inflight := inflight s1 @
                 map (\<lambda>(c, k). (c\<lparr>authorization := Some (''Bearer '' @ t)\<rparr>, k)) q\<rparr>"
    using Cons.prems(2) by (intro Cons.IH) (simp_all add: s1_def)
  finally show ?case by (simp add: s1_def p)
qed

lemma refreshFulfilled_drained:
  assumes "reactions s = []"
  shows "drain (refreshFulfilled originalRequest k t s) =
     s\<lparr>accessToken := Some t, isRefreshing := False, failedQueue := [],
       inflight := inflight s @
          (originalRequest\<lparr>authorization := Some (''Bearer '' @ t)\<rparr>, k) #
          map (\<lambda>(c, k'). (c\<lparr>authorization := Some (''Bearer '' @ t)\<rparr>, k')) (failedQueue s)\<rparr>"
proof -
  define s1 where
    "s1 = s\<lparr>accessToken := Some t, isRefreshing := False, failedQueue := [],
            reactions := map (settle None (Some t)) (failedQueue s),
            inflight := inflight s @ [(originalRequest\<lparr>authorization := Some (''Bearer '' @ t)\<rparr>, k)]\<rparr>"
  have "refreshFulfilled originalRequest k t s = s1"
    using assms
    by (simp add: s1_def refreshFulfilled_def setAccessToken_def processQueue_def apiClient_def
          requestInterceptor_def Let_def)
  moreover have "drain s1 = s1\<lparr>reactions := [],
               inflight := inflight s1 @
                 map (\<lambda>(c, k). (c\<lparr>authorization := Some (''Bearer '' @ t)\<rparr>, k)) (failedQueue s)\<rparr>"
    by (intro drain_retries) (simp_all add: s1_def)
  ultimately show ?thesis using assms by (simp add: s1_def)
qed

text \<open>A 2xx answer to a request of an external caller is what that caller observes.\<close>

lemma caller_receives_response:
  assumes "n < length (inflight s)" and "inflight s ! n = (c, Caller i)" and "reactions s = []"
  shows "step s (Respond n (Ok resp)) =
     s\<lparr>inflight := take n (inflight s) @ drop (Suc n) (inflight s),
       trace := trace s @ [Resolved i resp]\<rparr>"
  using assms by (simp add: drain_Cons drain_Nil)



subsection \<open>Order of settlement\<close>



subsection \<open>The refresh request\<close>

text \<open>
  Claim C4 says that the refresh request carries no bearer credential. It does not hold:
  the refresh call is made through \<open>apiClient\<close>, so the request interceptor runs on it as
  on any other request. With \<open>T1\<close> in the cell, the refresh request started by a 401 is
  sent with \<open>Authorization: Bearer T1\<close>.
\<close>

theorem refresh_request_is_credentialed:
  "inflight (run (init (Some ''T1'')) [Call (get ''/c''), Respond 0 unauthorized])
   = [(refreshRequest\<lparr>authorization := Some ''Bearer T1''\<rparr>,
       Await ((get ''/c'')\<lparr>authorization := Some ''Bearer T1'', retry := True\<rparr>) (Caller 0))]"
  by (simp add: eval_simps)

text \<open>
  Claim C4, amended. The one refresh request issued on the transition from idle to
  refreshing goes through the request interceptor: it carries the cell's credential as
  its bearer credential when the cell holds a token, and no Authorization header only
  when the cell is empty.
\<close>

theorem refresh_request_carries_cell_credential:
  assumes "\<not> isRefreshing s"
    and "response_status error = Some 401" and "\<not> retry (config error)"
  shows "inflight (onRejected error k s) =
           inflight s @
             [(refreshRequest
                 \<lparr>authorization :=
                    if truthy (accessToken s) then Some (bearer (accessToken s)) else None\<rparr>,
               Await ((config error)\<lparr>retry := True\<rparr>) k)]"
  using assms by (simp add: onRejected_trigger requestInterceptor_def refreshRequest_def)

theorem refresh_request_carries_cell_credential_witness:
  "\<not> isRefreshing (init (Some ''T1''))
   \<and> inflight (onRejected \<lparr>config = get ''/c'', response_status = Some 401\<rparr> (Caller 0)
                 (init (Some ''T1'')))
       = [(refreshRequest\<lparr>authorization := Some ''Bearer T1''\<rparr>,
           Await ((get ''/c'')\<lparr>retry := True\<rparr>) (Caller 0))]
   \<and> inflight (onRejected \<lparr>config = get ''/c'', response_status = Some 401\<rparr> (Caller 0)
                 (init None))
       = [(refreshRequest, Await ((get ''/c'')\<lparr>retry := True\<rparr>) (Caller 0))]"
proof -
  let ?e = "\<lparr>config = get ''/c'', response_status = Some 401\<rparr>"
  have h1: "\<not> isRefreshing (init tok)" for tok
    by (simp add: init_def)
  have h2: "response_status ?e = Some 401"
    by simp
  have h3: "\<not> retry (config ?e)"
    by (simp add: get_def)
  have i: "inflight (init tok) = []" "accessToken (init tok) = tok" for tok
    by (simp_all add: init_def)
  have r: "refreshRequest\<lparr>authorization := None\<rparr> = refreshRequest"
    by (simp add: refreshRequest_def)
  show ?thesis
    using h1 i r
      refresh_request_carries_cell_credential [OF h1 [of "Some ''T1''"] h2 h3, of "Caller 0"]
      refresh_request_carries_cell_credential [OF h1 [of None] h2 h3, of "Caller 0"]
    by simp
qed

subsection \<open>Refresh failure\<close>

lemma drain_rejects:
  "reactions s = map (\<lambda>j. Reject (Caller j) e) js \<Longrightarrow>
   drain s = s\<lparr>reactions := [], trace := trace s @ map (\<lambda>j. Rejected j e) js\<rparr>"
proof (induction js arbitrary: s)
  case Nil
  then show ?case by (simp add: drain_Nil)
next
  case (Cons j js)
  define s1 where
    "s1 = s\<lparr>reactions := map (\<lambda>j. Reject (Caller j) e) js, trace := trace s @ [Rejected j e]\<rparr>"
  have "drain s = drain s1"
    using Cons.prems by (simp add: drain_Cons s1_def)
  also have "\<dots> = s1\<lparr>reactions := [], trace := trace s1 @ map (\<lambda>j. Rejected j e) js\<rparr>"
    by (intro Cons.IH) (simp add: s1_def)
  finally show ?case by (simp add: s1_def)
qed

text \<open>
  When the failure of the refresh call reaches the \<open>catch\<close> block, which it does for every
  failure other than a 401, the cell is cleared, the logout event is dispatched once, and
  every queued caller and the caller that started the refresh observe the refresh error.
\<close>

lemma refresh_failure_reaches_catch:
  assumes "n < length (inflight s)"
    and "inflight s ! n = (r, Await originalRequest (Caller i))"
    and "reactions s = []"
    and "st \<noteq> Some 401 \<or> retry r"
    and "failedQueue s = map (\<lambda>(c, j). (c, Caller j)) ws"
  shows "step s (Respond n (Err st)) =
     s\<lparr>accessToken := None, isRefreshing := False, failedQueue := [],
       inflight := take n (inflight s) @ drop (Suc n) (inflight s),
       trace := trace s @ Logout #
                  map (\<lambda>j. Rejected j \<lparr>config = r, response_status = st\<rparr>) (map snd ws @ [i])\<rparr>"
proof -
  define e where "e = \<lparr>config = r, response_status = st\<rparr>"
  define s0 where "s0 = s\<lparr>inflight := take n (inflight s) @ drop (Suc n) (inflight s)\<rparr>"
  define s1 where
    "s1 = s0\<lparr>accessToken := None, isRefreshing := False, failedQueue := [],
             reactions := map (\<lambda>j. Reject (Caller j) e) (map snd ws @ [i]),
             trace := trace s @ [Logout]\<rparr>"
  have pass: "onRejected e (Await originalRequest (Caller i)) s0
                = reject (Await originalRequest (Caller i)) e s0"
    using assms(4) by (intro onRejected_pass) (simp add: e_def)
  have q: "map (settle (Some e) None) (map (\<lambda>(c, j). (c, Caller j)) ws)
             = map (\<lambda>j. Reject (Caller j) e) (map snd ws)"
    by (induction ws) auto
  have "step s (Respond n (Err st)) = drain (refreshRejected (Caller i) e s0)"
    using assms(1,2,3) pass
    by (simp add: drain_Cons reactions_same reject_def s0_def e_def)
  also have "refreshRejected (Caller i) e s0 = s1"
    using assms(3,5) q
    by (simp add: s1_def s0_def refreshRejected_def processQueue_def setAccessToken_def
          dispatchLogout_def reject_def Let_def)
  also have "drain s1 = s1\<lparr>reactions := [],
       trace := trace s1 @ map (\<lambda>j. Rejected j e) (map snd ws @ [i])\<rparr>"
    by (intro drain_rejects) (simp add: s1_def)
  finally show ?thesis using assms(3) by (simp add: s1_def s0_def e_def)
qed

subsection \<open>A refresh call that is itself answered with 401\<close>

text \<open>
  The refresh call is a request of \<open>apiClient\<close>, so its failure goes through the response
  interceptor before it reaches the \<open>await\<close>. A 401 on it meets the trigger condition while
  \<open>isRefreshing\<close> is set, and is appended to \<open>failedQueue\<close>: the handler that should empty
  the queue now waits for an entry of the queue. In such a state nothing reaches the
  suspended handler any more.
\<close>

lemma parked_step:
  assumes "parked i s"
  shows "parked i (step s ev)"
proof (cases ev)
  case (Call cfg)
  with assms show ?thesis
    by (simp add: parked_def apiClient_def drain_Nil)
next
  case (SetToken token)
  with assms show ?thesis
    by (simp add: parked_def setAccessToken_def)
next
  case (Respond n rep)
  show ?thesis
  proof (cases "n < length (inflight s)")
    case False
    with Respond assms show ?thesis by simp
  next
    case True
    obtain cfg k where nth: "inflight s ! n = (cfg, k)" by (cases "inflight s ! n")
    define s0 where "s0 = s\<lparr>inflight := take n (inflight s) @ drop (Suc n) (inflight s)\<rparr>"
    from assms have all: "list_all (\<lambda>p. other_caller i (snd p)) (inflight s)"
      by (simp add: parked_def)
    from all True nth have "other_caller i k"
      by (metis list_all_length snd_conv)
    then obtain j where k: "k = Caller j" and j: "j \<noteq> i"
      by (cases k) auto
    have "set (take n (inflight s) @ drop (Suc n) (inflight s)) \<subseteq> set (inflight s)"
      by (auto dest: in_set_takeD in_set_dropD)
    with all have "list_all (\<lambda>p. other_caller i (snd p)) (inflight s0)"
      by (auto simp: list_all_iff s0_def)
    with assms have ps: "parked i s0"
      by (simp add: parked_def s0_def)
    have "parked i (drain (respond (cfg, Caller j) rep s0))"
    proof (cases rep)
      case (Ok r)
      with ps j show ?thesis
        by (simp add: parked_def drain_Cons drain_Nil)
    next
      case (Err st)
      show ?thesis
      proof (cases "st = Some 401 \<and> \<not> retry cfg")
        case True
        with ps Err show ?thesis
          by (simp add: parked_def onRejected_join drain_Nil)
      next
        case False
        then have "onRejected \<lparr>config = cfg, response_status = st\<rparr> (Caller j) s0
                   = reject (Caller j) \<lparr>config = cfg, response_status = st\<rparr> s0"
          by (intro onRejected_pass) auto
        with ps Err j show ?thesis
          by (simp add: parked_def reject_def drain_Cons drain_Nil)
      qed
    qed
    with Respond True nth k show ?thesis by (simp add: s0_def)
  qed
qed

lemma parked_run: "parked i s \<Longrightarrow> parked i (run s es)"
  by (induction es arbitrary: s) (simp_all add: parked_step)

text \<open>
  Claim C3 says that when a request receives 401 and the refresh call then fails with
  401, the cell is cleared, the request is rejected and the logout event fires once. The
  code does none of this. With \<open>T1\<close> in the cell, a caller's request is answered with 401
  and the refresh call it starts is answered with 401: the cell still holds \<open>T1\<close>, and
  whatever happens afterwards (\<open>es\<close>), \<open>isRefreshing\<close> stays set, no logout is dispatched and
  caller 0 observes neither a result nor an error.
\<close>

theorem refresh_401_leaves_request_pending:
  "accessToken (run (init (Some ''T1''))
      [Call (get ''/c''), Respond 0 unauthorized, Respond 0 unauthorized]) = Some ''T1''
   \<and> isRefreshing (run (init (Some ''T1''))
      ([Call (get ''/c''), Respond 0 unauthorized, Respond 0 unauthorized] @ es))
   \<and> Logout \<notin> set (trace (run (init (Some ''T1''))
      ([Call (get ''/c''), Respond 0 unauthorized, Respond 0 unauthorized] @ es)))
   \<and> \<not> list_ex (settles 0) (trace (run (init (Some ''T1''))
      ([Call (get ''/c''), Respond 0 unauthorized, Respond 0 unauthorized] @ es)))"
proof -
  define s3 where
    "s3 = run (init (Some ''T1'')) [Call (get ''/c''), Respond 0 unauthorized, Respond 0 unauthorized]"
  have s3: "s3 =
      \<lparr>accessToken = Some ''T1'', isRefreshing = True,
       failedQueue = [(refreshRequest\<lparr>authorization := Some ''Bearer T1''\<rparr>,
                       Await ((get ''/c'')\<lparr>authorization := Some ''Bearer T1'', retry := True\<rparr>)
                         (Caller 0))],
       inflight = [], reactions = [], trace = [], next_id = 1\<rparr>"
    by (simp add: s3_def eval_simps)
  have "parked 0 s3"
    by (simp add: s3 parked_def)
  then have "parked 0 (run s3 es)"
    by (rule parked_run)
  then have "isRefreshing (run s3 es) \<and> Logout \<notin> set (trace (run s3 es))
      \<and> \<not> list_ex (settles 0) (trace (run s3 es))"
    by (simp add: parked_def)
  moreover have "accessToken s3 = Some ''T1''"
    by (simp add: s3)
  ultimately show ?thesis
    unfolding s3_def run_append [symmetric] by blast
qed

text \<open>
  Claim C5 says that on refresh failure the cell is cleared, every waiter is rejected and
  the logout event is dispatched exactly once. This fails when the refresh call is
  answered with 401, by the defect shown for claim C3. Three requests are answered with
  401, the first starts the refresh and the other two are queued; the refresh call is
  answered with 401. Then the cell still holds \<open>T1\<close>, the two waiters are still queued,
  and whatever happens afterwards (\<open>es\<close>) no logout is dispatched and the waiters, callers 1
  and 2, observe nothing.
\<close>

theorem refresh_401_rejects_no_waiter:
  "run (init (Some ''T1''))
      [Call (get ''/a''), Call (get ''/b''), Call (get ''/c''),
       Respond 0 unauthorized, Respond 0 unauthorized, Respond 0 unauthorized,
       Respond 0 unauthorized]
     = \<lparr>accessToken = Some ''T1'', isRefreshing = True,
        failedQueue =
          [((get ''/b'')\<lparr>authorization := Some ''Bearer T1''\<rparr>, Caller 1),
           ((get ''/c'')\<lparr>authorization := Some ''Bearer T1''\<rparr>, Caller 2),
           (refreshRequest\<lparr>authorization := Some ''Bearer T1''\<rparr>,
            Await ((get ''/a'')\<lparr>authorization := Some ''Bearer T1'', retry := True\<rparr>) (Caller 0))],
        inflight = [], reactions = [], trace = [], next_id = 3\<rparr>
   \<and> Logout \<notin> set (trace (run (init (Some ''T1''))
      ([Call (get ''/a''), Call (get ''/b''), Call (get ''/c''),
        Respond 0 unauthorized, Respond 0 unauthorized, Respond 0 unauthorized,
        Respond 0 unauthorized] @ es)))
   \<and> \<not> list_ex (settles 1) (trace (run (init (Some ''T1''))
      ([Call (get ''/a''), Call (get ''/b''), Call (get ''/c''),
        Respond 0 unauthorized, Respond 0 unauthorized, Respond 0 unauthorized,
        Respond 0 unauthorized] @ es)))
   \<and> \<not> list_ex (settles 2) (trace (run (init (Some ''T1''))
      ([Call (get ''/a''), Call (get ''/b''), Call (get ''/c''),
        Respond 0 unauthorized, Respond 0 unauthorized, Respond 0 unauthorized,
        Respond 0 unauthorized] @ es)))"
proof -
  define s7 where
    "s7 = run (init (Some ''T1''))
      [Call (get ''/a''), Call (get ''/b''), Call (get ''/c''),
       Respond 0 unauthorized, Respond 0 unauthorized, Respond 0 unauthorized,
       Respond 0 unauthorized]"
  have s7: "s7 =
      \<lparr>accessToken = Some ''T1'', isRefreshing = True,
        failedQueue =
          [((get ''/b'')\<lparr>authorization := Some ''Bearer T1''\<rparr>, Caller 1),
           ((get ''/c'')\<lparr>authorization := Some ''Bearer T1''\<rparr>, Caller 2),
           (refreshRequest\<lparr>authorization := Some ''Bearer T1''\<rparr>,
            Await ((get ''/a'')\<lparr>authorization := Some ''Bearer T1'', retry := True\<rparr>) (Caller 0))],
        inflight = [], reactions = [], trace = [], next_id = 3\<rparr>"
    by (simp add: s7_def eval_simps numeral_2_eq_2 numeral_3_eq_3)
  have "parked 1 s7" and "parked 2 s7"
    by (simp_all add: s7 parked_def)
  then have "parked 1 (run s7 es)" and "parked 2 (run s7 es)"
    by (simp_all add: parked_run)
  then have "Logout \<notin> set (trace (run s7 es))
      \<and> \<not> list_ex (settles 1) (trace (run s7 es))
      \<and> \<not> list_ex (settles 2) (trace (run s7 es))"
    by (simp add: parked_def)
  with s7 show ?thesis
    unfolding s7_def run_append [symmetric] by blast
qed

subsection \<open>Requests that joined a refresh are not marked as retried\<close>

text \<open>
  Claim C2 says that every request that triggers or joins a refresh is marked retried,
  so that a request that fails authentication again after its retry ends with an error
  and never triggers or joins another refresh. The join path returns before
  \<open>originalRequest._retry = true\<close>, so a request that joined is replayed with \<open>_retry\<close>
  unset. Requests \<open>/a\<close> and \<open>/b\<close> are answered with 401; \<open>/a\<close> starts the refresh and \<open>/b\<close>
  joins; the refresh returns \<open>T2\<close> and both are replayed. The replay of \<open>/b\<close> is answered
  with 401 again: no error reaches its caller, a second refresh call is in flight for
  it, and when that refresh returns \<open>T3\<close> the request \<open>/b\<close> is sent a third time.
\<close>

theorem joined_request_is_retried_again:
  "run (init (Some ''T1''))
      [Call (get ''/a''), Call (get ''/b''), Respond 0 unauthorized, Respond 0 unauthorized,
       Respond 0 (granted ''T2''), Respond 1 unauthorized]
     = \<lparr>accessToken = Some ''T2'', isRefreshing = True, failedQueue = [],
        inflight =
          [((get ''/a'')\<lparr>authorization := Some ''Bearer T2'', retry := True\<rparr>, Caller 0),
           (refreshRequest\<lparr>authorization := Some ''Bearer T2''\<rparr>,
            Await ((get ''/b'')\<lparr>authorization := Some ''Bearer T2'', retry := True\<rparr>) (Caller 1))],
        reactions = [], trace = [], next_id = 2\<rparr>
   \<and> run (init (Some ''T1''))
      [Call (get ''/a''), Call (get ''/b''), Respond 0 unauthorized, Respond 0 unauthorized,
       Respond 0 (granted ''T2''), Respond 1 unauthorized, Respond 1 (granted ''T3'')]
     = \<lparr>accessToken = Some ''T3'', isRefreshing = False, failedQueue = [],
        inflight =
          [((get ''/a'')\<lparr>authorization := Some ''Bearer T2'', retry := True\<rparr>, Caller 0),
           ((get ''/b'')\<lparr>authorization := Some ''Bearer T3'', retry := True\<rparr>, Caller 1)],
        reactions = [], trace = [], next_id = 2\<rparr>"
  by (simp add: eval_simps numeral_2_eq_2)

subsection \<open>At most one refresh call at any time\<close>

lemma drain_callers:
  "list_all caller_reaction (reactions s) \<Longrightarrow> \<exists>tr. drain s = s\<lparr>reactions := [], trace := tr\<rparr>"
proof (induction "reactions s" arbitrary: s)
  case Nil
  then have "drain s = s\<lparr>reactions := [], trace := trace s\<rparr>"
    by (simp add: drain_Nil)
  then show ?case ..
next
  case (Cons r rs)
  from Cons.hyps(2) [symmetric] Cons.prems
  have r: "caller_reaction r" and rs: "list_all caller_reaction rs"
    by simp_all
  from r obtain tr1 where one: "run_reaction r (s\<lparr>reactions := rs\<rparr>) = s\<lparr>reactions := rs, trace := tr1\<rparr>"
    by (cases r; cases "case r of Reject k e \<Rightarrow> k | Resolve k x \<Rightarrow> k | Retry c k t \<Rightarrow> k") auto
  have "\<exists>tr. drain (s\<lparr>reactions := rs, trace := tr1\<rparr>)
          = (s\<lparr>reactions := rs, trace := tr1\<rparr>)\<lparr>reactions := [], trace := tr\<rparr>"
    using rs by (intro Cons.hyps(1)) simp_all
  then obtain tr where "drain (s\<lparr>reactions := rs, trace := tr1\<rparr>) = s\<lparr>reactions := [], trace := tr\<rparr>"
    by auto
  moreover have "drain s = drain (run_reaction r (s\<lparr>reactions := rs\<rparr>))"
    using Cons.hyps(2) [symmetric] by (simp add: drain_Cons)
  ultimately have "drain s = s\<lparr>reactions := [], trace := tr\<rparr>"
    by (simp add: one)
  then show ?case ..
qed

lemma awaits_remove:
  assumes "n < length xs"
  shows "awaits (take n xs @ drop (Suc n) xs) + (if is_caller (snd (xs ! n)) then 0 else 1)
           = awaits xs"
proof -
  have "xs = take n xs @ xs ! n # drop (Suc n) xs"
    using assms by (rule id_take_nth_drop)
  then have "awaits xs = awaits (take n xs @ xs ! n # drop (Suc n) xs)"
    by simp
  then show ?thesis
    by (simp add: awaits_def)
qed

lemma flat_remove:
  "list_all (\<lambda>p. flat (snd p)) xs \<Longrightarrow>
   list_all (\<lambda>p. flat (snd p)) (take n xs @ drop (Suc n) xs)"
  by (auto simp: list_all_iff dest: in_set_takeD in_set_dropD)

lemma awaits_zero: "awaits xs = 0 \<Longrightarrow> (c, k) \<in> set xs \<Longrightarrow> is_caller k"
  by (auto simp: awaits_def filter_empty_conv)

lemma replay_callers:
  "list_all (\<lambda>p. is_caller (snd p)) q \<Longrightarrow>
   list_all (\<lambda>p. is_caller (snd p)) (map (\<lambda>(c, k). (f c, k)) q)"
  by (induction q) auto

lemma callers_awaits: "list_all (\<lambda>p. is_caller (snd p)) q \<Longrightarrow> awaits q = 0"
  by (induction q) (auto simp: awaits_def)

lemma callers_flat:
  "list_all (\<lambda>p. is_caller (snd p)) q \<Longrightarrow> list_all (\<lambda>p. flat (snd p)) q"
proof (induction q)
  case Nil
  show ?case by simp
next
  case (Cons p q)
  then have "is_caller (snd p)" by simp
  then have "flat (snd p)" by (cases "snd p") simp_all
  with Cons show ?case by simp
qed

lemma single_refresh_step:
  assumes "single_refresh s"
  shows "single_refresh (step s ev)"
proof (cases ev)
  case (Call cfg)
  with assms show ?thesis
    by (simp add: single_refresh_def apiClient_def drain_Nil awaits_def)
next
  case (SetToken token)
  with assms show ?thesis
    by (simp add: single_refresh_def setAccessToken_def)
next
  case (Respond n rep)
  show ?thesis
  proof (cases "n < length (inflight s)")
    case False
    with Respond assms show ?thesis by simp
  next
    case True
    obtain cfg k where nth: "inflight s ! n = (cfg, k)" by (cases "inflight s ! n")
    define s0 where "s0 = s\<lparr>inflight := take n (inflight s) @ drop (Suc n) (inflight s)\<rparr>"
    from assms have r0: "reactions s0 = []"
      and fq: "list_all (\<lambda>p. flat (snd p)) (failedQueue s0)"
      by (simp_all add: single_refresh_def s0_def)
    from assms have "list_all (\<lambda>p. flat (snd p)) (inflight s)"
      by (simp add: single_refresh_def)
    then have "list_all (\<lambda>p. flat (snd p)) (take n (inflight s) @ drop (Suc n) (inflight s))"
      by (rule flat_remove)
    moreover have "inflight s0 = take n (inflight s) @ drop (Suc n) (inflight s)"
      by (simp add: s0_def)
    ultimately have fi: "list_all (\<lambda>p. flat (snd p)) (inflight s0)"
      by (simp only:)
    from assms True nth have fk: "flat k"
      by (metis list_all_length single_refresh_def snd_conv)
    from assms awaits_remove [OF True] nth
    have cnt: "awaits (inflight s0) + (if is_caller k then 0 else 1) + awaits (failedQueue s0)
                 \<le> (if isRefreshing s0 then 1 else 0)"
      by (simp add: single_refresh_def s0_def)
    have st: "step s ev = drain (respond (cfg, k) rep s0)"
      using Respond True nth by (simp add: s0_def)
    show ?thesis
    proof (cases k)
      case (Caller i)
      show ?thesis
      proof (cases rep)
        case (Ok r)
        have "\<exists>tr. drain (respond (cfg, k) rep s0)
                = (respond (cfg, k) rep s0)\<lparr>reactions := [], trace := tr\<rparr>"
          by (rule drain_callers) (simp add: Ok Caller r0)
        then obtain tr where "step s ev = s0\<lparr>reactions := [], trace := tr\<rparr>"
          unfolding st by (auto simp: Ok)
        with r0 fi fq cnt Caller show ?thesis
          by (simp add: single_refresh_def)
      next
        case (Err status)
        define e where "e = \<lparr>config = cfg, response_status = status\<rparr>"
        consider (pass) "status \<noteq> Some 401 \<or> retry cfg"
          | (join) "status = Some 401" "\<not> retry cfg" "isRefreshing s0"
          | (trigger) "status = Some 401" "\<not> retry cfg" "\<not> isRefreshing s0"
          by blast
        then show ?thesis
        proof cases
          case pass
          then have p: "onRejected e k s0 = reject k e s0"
            by (intro onRejected_pass) (simp add: e_def)
          have "\<exists>tr. drain (reject k e s0) = (reject k e s0)\<lparr>reactions := [], trace := tr\<rparr>"
            by (rule drain_callers) (simp add: reject_def Caller r0)
          then obtain tr where "step s ev = s0\<lparr>reactions := [], trace := tr\<rparr>"
            unfolding st by (auto simp: Err p reject_def simp flip: e_def)
          with r0 fi fq cnt Caller show ?thesis
            by (simp add: single_refresh_def)
        next
          case join
          then have "onRejected e k s0 = s0\<lparr>failedQueue := failedQueue s0 @ [(cfg, k)]\<rparr>"
            by (simp add: onRejected_join e_def)
          then have "step s ev = s0\<lparr>failedQueue := failedQueue s0 @ [(cfg, k)]\<rparr>"
            unfolding st using r0 by (simp add: Err drain_Nil flip: e_def)
          with r0 fi fq cnt Caller show ?thesis
            by (simp add: single_refresh_def awaits_def)
        next
          case trigger
          then have "onRejected e k s0 =
              s0\<lparr>isRefreshing := True,
                 inflight := inflight s0 @
                   [(requestInterceptor (accessToken s0) refreshRequest,
                     Await (cfg\<lparr>retry := True\<rparr>) k)]\<rparr>"
            by (simp add: onRejected_trigger e_def)
          then have "step s ev =
              s0\<lparr>isRefreshing := True,
                 inflight := inflight s0 @
                   [(requestInterceptor (accessToken s0) refreshRequest,
                     Await (cfg\<lparr>retry := True\<rparr>) k)]\<rparr>"
            unfolding st using r0 by (simp add: Err drain_Nil flip: e_def)
          with r0 fi fq cnt Caller trigger show ?thesis
            by (simp add: single_refresh_def awaits_def)
        qed
      qed
    next
      case (Await originalRequest k')
      with fk obtain i where k': "k' = Caller i"
        by (cases k') auto
      from cnt Await have busy: "isRefreshing s0"
        and none: "awaits (inflight s0) = 0" "awaits (failedQueue s0) = 0"
        by (simp_all split: if_splits)
      show ?thesis
      proof (cases rep)
        case (Ok r)
        have "step s ev = drain (refreshFulfilled originalRequest k' (access r) s0)"
          unfolding st using r0 by (simp add: Ok Await drain_Cons reactions_same)
        also have "\<dots> =
            s0\<lparr>accessToken := Some (access r), isRefreshing := False, failedQueue := [],
               inflight := inflight s0 @
                 (originalRequest\<lparr>authorization := Some (''Bearer '' @ access r)\<rparr>, k') #
                 map (\<lambda>(c, k'). (c\<lparr>authorization := Some (''Bearer '' @ access r)\<rparr>, k'))
                   (failedQueue s0)\<rparr>"
          using r0 by (rule refreshFulfilled_drained)
        finally have eq: "step s ev =
            s0\<lparr>accessToken := Some (access r), isRefreshing := False, failedQueue := [],
               inflight := inflight s0 @
                 (originalRequest\<lparr>authorization := Some (''Bearer '' @ access r)\<rparr>, k') #
                 map (\<lambda>(c, k'). (c\<lparr>authorization := Some (''Bearer '' @ access r)\<rparr>, k'))
                   (failedQueue s0)\<rparr>" .
        have q: "list_all (\<lambda>p. is_caller (snd p)) (failedQueue s0)"
          using none(2) by (auto simp: list_all_iff dest: awaits_zero)
        have "list_all (\<lambda>p. is_caller (snd p))
                (map (\<lambda>(c, k'). (c\<lparr>authorization := Some (''Bearer '' @ access r)\<rparr>, k'))
                   (failedQueue s0))"
          using q by (rule replay_callers)
        then have "awaits (map (\<lambda>(c, k'). (c\<lparr>authorization := Some (''Bearer '' @ access r)\<rparr>, k'))
                   (failedQueue s0)) = 0"
          and "list_all (\<lambda>p. flat (snd p))
                (map (\<lambda>(c, k'). (c\<lparr>authorization := Some (''Bearer '' @ access r)\<rparr>, k'))
                   (failedQueue s0))"
          by (simp_all only: callers_awaits callers_flat)
        with r0 fi none k' show ?thesis
          by (simp add: eq single_refresh_def awaits_def)
      next
        case (Err status)
        define e where "e = \<lparr>config = cfg, response_status = status\<rparr>"
        show ?thesis
        proof (cases "status = Some 401 \<and> \<not> retry cfg")
          case True
          with busy have "onRejected e k s0 = s0\<lparr>failedQueue := failedQueue s0 @ [(cfg, k)]\<rparr>"
            by (simp add: onRejected_join e_def)
          then have "step s ev = s0\<lparr>failedQueue := failedQueue s0 @ [(cfg, k)]\<rparr>"
            unfolding st using r0 by (simp add: Err drain_Nil flip: e_def)
          with r0 fi fq fk none busy Await show ?thesis
            by (simp add: single_refresh_def awaits_def)
        next
          case False
          then have p: "onRejected e k s0 = reject k e s0"
            by (intro onRejected_pass) (auto simp: e_def)
          define s1 where
            "s1 = s0\<lparr>accessToken := None, isRefreshing := False, failedQueue := [],
                     reactions := map (settle (Some e) None) (failedQueue s0) @ [Reject k' e],
                     trace := trace s0 @ [Logout]\<rparr>"
          have "step s ev = drain (refreshRejected k' e s0)"
            unfolding st using r0
            by (simp add: Err p [unfolded Await] reject_def Await drain_Cons reactions_same flip: e_def)
          also have "refreshRejected k' e s0 = s1"
            using r0
            by (simp add: s1_def refreshRejected_def processQueue_def setAccessToken_def
                  dispatchLogout_def reject_def Let_def)
          finally have eq: "step s ev = drain s1" .
          have "list_all caller_reaction (map (settle (Some e) None) (failedQueue s0))"
            using none(2) by (auto simp: list_all_iff dest: awaits_zero)
          then have "list_all caller_reaction (reactions s1)"
            by (simp add: s1_def k')
          then obtain tr where "drain s1 = s1\<lparr>reactions := [], trace := tr\<rparr>"
            using drain_callers by blast
          with fi none show ?thesis
            by (simp add: eq s1_def single_refresh_def awaits_def)
        qed
      qed
    qed
  qed
qed

text \<open>
  In every state the module reaches from its initial state, at most one refresh call is
  pending, in flight or (after its own 401) in the queue, and none unless \<open>isRefreshing\<close>
  is set.
\<close>

lemma single_refresh_run: "single_refresh s \<Longrightarrow> single_refresh (run s es)"
  by (induction es arbitrary: s) (simp_all add: single_refresh_step)

lemma at_most_one_refresh_pending:
  "awaits (inflight (run (init token) es)) + awaits (failedQueue (run (init token) es))
     \<le> (if isRefreshing (run (init token) es) then 1 else 0)"
proof -
  have "single_refresh (init token)"
    by (simp add: single_refresh_def init_def awaits_def)
  then have "single_refresh (run (init token) es)"
    by (rule single_refresh_run)
  then show ?thesis
    by (simp add: single_refresh_def)
qed

end
